theory Spec2Isabelle
  imports Complex_Main
begin

section \<open>retry.ts: backoff delay, retry eligibility and the retry loop\<close>

text \<open>
  JavaScript numbers are modelled as \<^typ>\<open>real\<close> where the source computes with
  possibly fractional values (delays, the \<open>attempt\<close> argument of the backoff
  calculator) and as \<^typ>\<open>int\<close> where they are HTTP status codes or counters.
\<close>

definition DEFAULT_BASE_DELAY :: real where
  "DEFAULT_BASE_DELAY = 1000"

definition DEFAULT_MAX_DELAY :: real where
  "DEFAULT_MAX_DELAY = 10000"

definition DEFAULT_MAX_RETRIES :: int where
  "DEFAULT_MAX_RETRIES = 3"

text \<open>
  \<open>Math.floor\<close> is \<open>\<lfloor>_\<rfloor>\<close>, \<open>Math.max(0, _)\<close> clamps the floor at zero, and
  \<open>Math.pow(2, safeAttempt)\<close> with a non-negative integer exponent is a power.
\<close>

definition calculateBackoff :: "real \<Rightarrow> real \<Rightarrow> real \<Rightarrow> real" where
  "calculateBackoff attempt baseDelay maxDelay =
     (let safeAttempt = max 0 \<lfloor>attempt\<rfloor>;
          delay = baseDelay * 2 ^ nat safeAttempt
      in min delay maxDelay)"

definition shouldRetry :: "int \<Rightarrow> int \<Rightarrow> int \<Rightarrow> bool" where
  "shouldRetry status attempt maxRetries =
     (if attempt \<ge> maxRetries then False
      else status = 0 \<or> (status \<ge> 500 \<and> status < 600))"


subsection \<open>The upstream and the observable effects of a run\<close>

text \<open>
  \<open>fetch\<close> either rejects (a network error carrying a message) or resolves to a
  response. Of a response the code reads \<open>status\<close>, \<open>ok\<close> (a status in
  200..299) and, in session.ts, the JSON body: \<open>json_body\<close> is \<open>None\<close> when
  reading the body as the expected object throws, and otherwise the \<open>sessions\<close>
  array the code extracts (\<open>data.response?.sessions || []\<close>).
\<close>

record ClerkSession =
  id_field :: string
  status_field :: string
  expire_at :: int
  last_active_at :: int

datatype response = Response (status_code: int) (json_body: "ClerkSession list option")

datatype http_outcome = NetworkError string | Replied response

definition ok :: "response \<Rightarrow> bool" where
  "ok r = (200 \<le> status_code r \<and> status_code r \<le> 299)"

text \<open>
  The observable effects of a run are the calls of \<open>fetch\<close> and the timed
  suspensions, in the order they happen. The upstream is a function from
  the number of calls made so far to the outcome of the next call.
\<close>

datatype io_event = Fetch | Sleep real

record world =
  calls :: nat
  trace :: "io_event list"

definition world0 :: world where
  "world0 = \<lparr>calls = 0, trace = []\<rparr>"

definition do_fetch :: "(nat \<Rightarrow> http_outcome) \<Rightarrow> world \<Rightarrow> http_outcome \<times> world" where
  "do_fetch upstream w =
     (upstream (calls w), w\<lparr>calls := calls w + 1, trace := trace w @ [Fetch]\<rparr>)"

definition do_sleep :: "real \<Rightarrow> world \<Rightarrow> world" where
  "do_sleep ms w = w\<lparr>trace := trace w @ [Sleep ms]\<rparr>"

datatype failure_cause = ErrorMessage string | HttpStatus int

text \<open>\<open>UpstreamError n c\<close> is the thrown \<open>Error("Upstream error after n retries: c")\<close>.\<close>

datatype upstream_error = UpstreamError int failure_cause

subsection \<open>fetchWithRetry\<close>

text \<open>
  The \<open>for\<close> loop of \<open>fetchWithRetry\<close>, with the loop variable \<open>attempt\<close> and the
  locals \<open>lastError\<close> and \<open>lastStatus\<close> as arguments. The \<open>catch\<close> block is the
  \<open>NetworkError\<close> branch; the code after the loop is the \<open>else\<close> branch.
\<close>

function fetchWithRetry_loop ::
  "(nat \<Rightarrow> http_outcome) \<Rightarrow> int \<Rightarrow> real \<Rightarrow> real \<Rightarrow> nat \<Rightarrow> string option \<Rightarrow> int \<Rightarrow> world
     \<Rightarrow> (upstream_error + response) \<times> world" where
  "fetchWithRetry_loop upstream maxRetries baseDelay maxDelay attempt lastError lastStatus w =
     (if int attempt \<le> maxRetries then
        (let w1 = (if attempt > 0
                   then do_sleep (calculateBackoff (real attempt - 1) baseDelay maxDelay) w
                   else w);
             r = fst (do_fetch upstream w1);
             w2 = snd (do_fetch upstream w1)
         in case r of
              Replied response \<Rightarrow>
                if ok response \<or> (status_code response \<ge> 400 \<and> status_code response < 500)
                then (Inr response, w2)
                else if \<not> shouldRetry (status_code response) (int attempt) maxRetries
                then (Inr response, w2)
                else fetchWithRetry_loop upstream maxRetries baseDelay maxDelay
                       (attempt + 1) lastError (status_code response) w2
            | NetworkError msg \<Rightarrow>
                if \<not> shouldRetry 0 (int attempt) maxRetries
                then (Inl (UpstreamError (int attempt + 1) (ErrorMessage msg)), w2)
                else fetchWithRetry_loop upstream maxRetries baseDelay maxDelay
                       (attempt + 1) (Some msg) 0 w2)
      else (case lastError of
              Some msg \<Rightarrow> (Inl (UpstreamError (maxRetries + 1) (ErrorMessage msg)), w)
            | None \<Rightarrow> (Inl (UpstreamError (maxRetries + 1) (HttpStatus lastStatus)), w)))"
  by pat_completeness auto
termination
  by (relation "measure (\<lambda>(u, m, b, d, a, e, s, w). nat (m + 1 - int a))") auto

declare fetchWithRetry_loop.simps [simp del]

definition fetchWithRetry ::
  "(nat \<Rightarrow> http_outcome) \<Rightarrow> int \<Rightarrow> real \<Rightarrow> real \<Rightarrow> world \<Rightarrow> (upstream_error + response) \<times> world" where
  "fetchWithRetry upstream maxRetries baseDelay maxDelay w =
     fetchWithRetry_loop upstream maxRetries baseDelay maxDelay 0 None 0 w"

text \<open>
  The effects of \<open>n\<close> attempts as the specification describes them: \<open>n\<close> calls of
  the operation, the retry number \<open>k\<close> (\<open>k \<ge> 1\<close>) preceded by a suspension of
  \<open>calculateBackoff (k - 1)\<close>.
\<close>

fun attempts_trace :: "real \<Rightarrow> real \<Rightarrow> nat \<Rightarrow> io_event list" where
  "attempts_trace b m 0 = []"
| "attempts_trace b m (Suc 0) = [Fetch]"
| "attempts_trace b m (Suc (Suc n)) =
     attempts_trace b m (Suc n) @ [Sleep (calculateBackoff (real n) b m), Fetch]"


text \<open>A concrete upstream that rejects every call with a network error.\<close>

definition always_down :: "nat \<Rightarrow> http_outcome" where
  "always_down k = NetworkError ''down''"


section \<open>session.ts: the session credential cache\<close>

record SessionCache =
  sessionId :: string
  expiresAt :: int

record retry_config =
  maxRetries :: int
  baseDelayMs :: real
  maxDelayMs :: real

definition SESSION_CACHE_DURATION_MS :: int where
  "SESSION_CACHE_DURATION_MS = 5 * 60 * 1000"

definition RETRY_CONFIG :: retry_config where
  "RETRY_CONFIG = \<lparr>maxRetries = 3, baseDelayMs = 1000, maxDelayMs = 10000\<rparr>"

text \<open>
  session.ts has a backoff calculator of its own, without the floor and the clamp of
  the one in retry.ts: \<open>Math.pow(2, attempt)\<close> on any number is \<open>2 powr attempt\<close>.
\<close>

definition session_calculateBackoff :: "real \<Rightarrow> real" where
  "session_calculateBackoff attempt =
     (let delay = baseDelayMs RETRY_CONFIG * 2 powr attempt
      in min delay (maxDelayMs RETRY_CONFIG))"

text \<open>The errors thrown inside the \<open>try\<close> block of \<open>fetchSessionIdFromClerk\<close>.\<close>

datatype session_error =
    FetchRejected string
  | ClerkApiError int
  | BodyUnreadable
  | NoActiveSession
  | SessionFetchFailed

text \<open>
  The body of the \<open>try\<close> block after the call of \<open>fetch\<close>: the first session whose
  status is \<open>"active"\<close> gives the result, everything else throws.
\<close>

definition clerk_attempt :: "http_outcome \<Rightarrow> session_error + string" where
  "clerk_attempt r =
     (case r of
        NetworkError msg \<Rightarrow> Inl (FetchRejected msg)
      | Replied response \<Rightarrow>
          if \<not> ok response then Inl (ClerkApiError (status_code response))
          else (case json_body response of
                  None \<Rightarrow> Inl BodyUnreadable
                | Some sessions \<Rightarrow>
                    (case find (\<lambda>s. status_field s = ''active'') sessions of
                       None \<Rightarrow> Inl NoActiveSession
                     | Some activeSession \<Rightarrow> Inr (id_field activeSession))))"

text \<open>
  The \<open>for\<close> loop of \<open>fetchSessionIdFromClerk\<close>; the \<open>catch\<close> block is the
  \<open>Inl\<close> branch, the \<open>throw\<close> after the loop is the \<open>else\<close> branch. The client
  token only goes into the request's cookie header.
\<close>

function fetchSessionIdFromClerk_loop ::
  "(nat \<Rightarrow> http_outcome) \<Rightarrow> string \<Rightarrow> nat \<Rightarrow> session_error option \<Rightarrow> world
     \<Rightarrow> (session_error + string) \<times> world" where
  "fetchSessionIdFromClerk_loop upstream clientToken attempt lastError w =
     (if int attempt < maxRetries RETRY_CONFIG then
        (let r = fst (do_fetch upstream w);
             w1 = snd (do_fetch upstream w)
         in case clerk_attempt r of
              Inr activeSessionId \<Rightarrow> (Inr activeSessionId, w1)
            | Inl error \<Rightarrow>
                (let w2 = (if int attempt < maxRetries RETRY_CONFIG - 1
                           then do_sleep (session_calculateBackoff (real attempt)) w1
                           else w1)
                 in fetchSessionIdFromClerk_loop upstream clientToken (attempt + 1) (Some error) w2))
      else (case lastError of
              Some error \<Rightarrow> (Inl error, w)
            | None \<Rightarrow> (Inl SessionFetchFailed, w)))"
  by pat_completeness auto
termination
  by (relation "measure (\<lambda>(u, c, a, e, w). nat (maxRetries RETRY_CONFIG - int a))") auto

declare fetchSessionIdFromClerk_loop.simps [simp del]

definition fetchSessionIdFromClerk ::
  "(nat \<Rightarrow> http_outcome) \<Rightarrow> string \<Rightarrow> world \<Rightarrow> (session_error + string) \<times> world" where
  "fetchSessionIdFromClerk upstream clientToken w =
     fetchSessionIdFromClerk_loop upstream clientToken 0 None w"

text \<open>
  \<open>getSessionId\<close> on the module variable \<open>cachedSession\<close>. \<open>Date.now()\<close> is read
  twice, before the cache check (\<open>now\<close>) and when the new entry is stored
  (\<open>now'\<close>). \<open>refreshSession\<close> is the code after the cache check: a failure of the
  fetch propagates out of the function before the assignment is reached.
\<close>

definition refreshSession ::
  "(nat \<Rightarrow> http_outcome) \<Rightarrow> int \<Rightarrow> string \<Rightarrow> SessionCache option \<Rightarrow> world
     \<Rightarrow> (session_error + string) \<times> SessionCache option \<times> world" where
  "refreshSession upstream now' clientToken cachedSession w =
     (case fetchSessionIdFromClerk upstream clientToken w of
        (Inl error, w') \<Rightarrow> (Inl error, cachedSession, w')
      | (Inr sid, w') \<Rightarrow>
          (Inr sid,
           Some \<lparr>sessionId = sid, expiresAt = now' + SESSION_CACHE_DURATION_MS\<rparr>,
           w'))"

definition getSessionId ::
  "(nat \<Rightarrow> http_outcome) \<Rightarrow> int \<Rightarrow> int \<Rightarrow> string \<Rightarrow> bool \<Rightarrow> SessionCache option \<Rightarrow> world
     \<Rightarrow> (session_error + string) \<times> SessionCache option \<times> world" where
  "getSessionId upstream now now' clientToken forceRefresh cachedSession w =
     (case cachedSession of
        Some c \<Rightarrow>
          if \<not> forceRefresh \<and> now < expiresAt c
          then (Inr (sessionId c), cachedSession, w)
          else refreshSession upstream now' clientToken cachedSession w
      | None \<Rightarrow> refreshSession upstream now' clientToken cachedSession w)"

definition clearSessionCache :: "SessionCache option \<Rightarrow> SessionCache option" where
  "clearSessionCache cachedSession = None"

text \<open>
  An upstream fails on every attempt, for both retry loops, when each call ends in a
  network error or a 5xx response.
\<close>

definition fails_every_attempt :: "(nat \<Rightarrow> http_outcome) \<Rightarrow> bool" where
  "fails_every_attempt upstream =
     (\<forall>k. case upstream k of
             NetworkError msg \<Rightarrow> True
           | Replied response \<Rightarrow> 500 \<le> status_code response \<and> status_code response < 600)"

section \<open>The sliding-window rate limiter (class RateLimiter, in src/auth.ts)\<close>

record RateLimitConfig =
  enabled :: bool
  windowMs :: int
  maxRequests :: int

record RateLimitResult =
  allowed :: bool
  retryAfter :: "int option"
  remaining :: int

record RequestRecord =
  timestamp :: int

text \<open>
  The fields of the class that the quota algorithm uses: the map from client
  identifiers to their request records and the configuration. Times are integer
  milliseconds, as \<open>Date.now()\<close> returns them; the instant read by a method is its
  argument \<open>now\<close>.
\<close>

record RateLimiter =
  requests :: "string \<rightharpoonup> RequestRecord list"
  config :: RateLimitConfig

text \<open>
  \<open>checkLimit\<close> returns its result together with the limiter as the call leaves it:
  \<open>filter\<close> builds a new array that is bound to the local variable only, and the
  method has no assignment to a field and no call of \<open>this.requests.set\<close>.
  \<open>Math.ceil(retryAfterMs / 1000)\<close> is the ceiling of the real quotient.
\<close>

definition checkLimit :: "RateLimiter \<Rightarrow> int \<Rightarrow> string \<Rightarrow> RateLimitResult \<times> RateLimiter" where
  "checkLimit this now clientId =
     (if \<not> enabled (config this)
      then (\<lparr>allowed = True, retryAfter = None, remaining = maxRequests (config this)\<rparr>, this)
      else
        (let windowStart = now - windowMs (config this);
             stored = (case requests this clientId of None \<Rightarrow> [] | Some rs \<Rightarrow> rs);
             clientRequests = filter (\<lambda>r. timestamp r > windowStart) stored;
             requestCount = int (length clientRequests);
             remaining = max 0 (maxRequests (config this) - requestCount)
         in if requestCount \<ge> maxRequests (config this)
            then
              (let retryAfterMs =
                     (case clientRequests of
                        oldestRequest # rest \<Rightarrow>
                          (timestamp oldestRequest + windowMs (config this)) - now
                      | [] \<Rightarrow> windowMs (config this));
                   retryAfter = \<lceil>real_of_int retryAfterMs / 1000\<rceil>
               in (\<lparr>allowed = False, retryAfter = Some (max 1 retryAfter), remaining = 0\<rparr>, this))
            else (\<lparr>allowed = True, retryAfter = None, remaining = remaining\<rparr>, this)))"

definition recordRequest :: "RateLimiter \<Rightarrow> int \<Rightarrow> string \<Rightarrow> RateLimiter" where
  "recordRequest this now clientId =
     (if \<not> enabled (config this) then this
      else
        (let windowStart = now - windowMs (config this);
             stored = (case requests this clientId of None \<Rightarrow> [] | Some rs \<Rightarrow> rs);
             clientRequests = filter (\<lambda>r. timestamp r > windowStart) stored;
             clientRequests = clientRequests @ [\<lparr>timestamp = now\<rparr>]
         in this\<lparr>requests := (requests this)(clientId \<mapsto> clientRequests)\<rparr>))"

definition getRequestCount :: "RateLimiter \<Rightarrow> int \<Rightarrow> string \<Rightarrow> int" where
  "getRequestCount this now clientId =
     (if \<not> enabled (config this) then 0
      else
        (let windowStart = now - windowMs (config this);
             clientRequests = (case requests this clientId of None \<Rightarrow> [] | Some rs \<Rightarrow> rs)
         in int (length (filter (\<lambda>r. timestamp r > windowStart) clientRequests))))"

text \<open>The constructor, given a full configuration: no client has a record yet.\<close>

definition new_RateLimiter :: "RateLimitConfig \<Rightarrow> RateLimiter" where
  "new_RateLimiter cfg = \<lparr>requests = Map.empty, config = cfg\<rparr>"

text \<open>One call of \<open>recordRequest\<close> for the client at each of the given instants, in order.\<close>

fun recordRequests :: "RateLimiter \<Rightarrow> int list \<Rightarrow> string \<Rightarrow> RateLimiter" where
  "recordRequests this [] clientId = this"
| "recordRequests this (t # ts) clientId =
     recordRequests (recordRequest this t clientId) ts clientId"

text \<open>The timestamps stored for a client, oldest record first.\<close>

definition stored_timestamps :: "RateLimiter \<Rightarrow> string \<Rightarrow> int list" where
  "stored_timestamps this clientId =
     (case requests this clientId of None \<Rightarrow> [] | Some rs \<Rightarrow> map timestamp rs)"

definition limiter_5_per_minute :: RateLimiter where
  "limiter_5_per_minute =
     new_RateLimiter \<lparr>enabled = True, windowMs = 60000, maxRequests = 5\<rparr>"

section \<open>The admission queue (class RequestQueue, in src/logging.ts)\<close>

record QueueConfig =
  maxConcurrent :: int
  maxQueueSize :: int

datatype queue_error = QueueFullError

text \<open>What the caller of an accepted \<open>enqueue\<close> holds: a task that already runs, or one that waits.\<close>

datatype admission = Executing | Deferred

text \<open>
  The observable steps of the queue, in the order they happen: a task was accepted
  by \<open>enqueue\<close>, appended to the pending array, removed from it by \<open>processNext\<close>,
  or its work function was called.
\<close>

datatype 'a queue_event = Accepted 'a | Pushed 'a | Shifted 'a | Started 'a

text \<open>
  The fields \<open>queue\<close>, \<open>activeCount\<close> and \<open>config\<close> of the class, a task standing
  for its work function. Two more components describe the environment rather than
  the object: \<open>running\<close>, the tasks whose promise has not settled yet, and \<open>steps\<close>,
  the steps so far.
\<close>

record 'a RequestQueue =
  queue :: "'a list"
  activeCount :: int
  queue_config :: QueueConfig
  running :: "'a list"
  steps :: "'a queue_event list"

definition new_RequestQueue :: "QueueConfig \<Rightarrow> 'a RequestQueue" where
  "new_RequestQueue cfg =
     \<lparr>queue = [], activeCount = 0, queue_config = cfg, running = [], steps = []\<rparr>"

text \<open>
  The synchronous part of \<open>executeTask\<close>, and of the promotion in \<open>processNext\<close>:
  the counter is incremented and the work function is called.
\<close>

definition executeTask :: "'a RequestQueue \<Rightarrow> 'a \<Rightarrow> 'a RequestQueue" where
  "executeTask this task =
     this\<lparr>activeCount := activeCount this + 1,
          running := running this @ [task],
          steps := steps this @ [Started task]\<rparr>"

definition enqueue :: "'a RequestQueue \<Rightarrow> 'a \<Rightarrow> (queue_error + admission) \<times> 'a RequestQueue" where
  "enqueue this task =
     (if int (length (queue this)) \<ge> maxQueueSize (queue_config this)
      then (Inl QueueFullError, this)
      else if activeCount this < maxConcurrent (queue_config this)
      then (Inr Executing, executeTask (this\<lparr>steps := steps this @ [Accepted task]\<rparr>) task)
      else (Inr Deferred,
            this\<lparr>queue := queue this @ [task],
                 steps := steps this @ [Accepted task, Pushed task]\<rparr>))"

definition processNext :: "'a RequestQueue \<Rightarrow> 'a RequestQueue" where
  "processNext this =
     (if length (queue this) = 0 \<or> activeCount this \<ge> maxConcurrent (queue_config this)
      then this
      else (case queue this of
              [] \<Rightarrow> this
            | next # rest \<Rightarrow>
                executeTask (this\<lparr>queue := rest, steps := steps this @ [Shifted next]\<rparr>) next))"

text \<open>
  A running task settles, with a value or with an error: both paths end in the
  \<open>finally\<close> block, which decrements the counter and calls \<open>processNext\<close> in the
  same synchronous step. Only a running task can settle.
\<close>

definition settle :: "'a RequestQueue \<Rightarrow> 'a \<Rightarrow> 'a RequestQueue" where
  "settle this task =
     (if task \<in> set (running this)
      then processNext (this\<lparr>activeCount := activeCount this - 1,
                             running := remove1 task (running this)\<rparr>)
      else this)"

definition getStatus :: "'a RequestQueue \<Rightarrow> nat \<times> int" where
  "getStatus this = (length (queue this), activeCount this)"

definition canAccept :: "'a RequestQueue \<Rightarrow> bool" where
  "canAccept this = (int (length (queue this)) < maxQueueSize (queue_config this))"

definition hasCapacity :: "'a RequestQueue \<Rightarrow> bool" where
  "hasCapacity this = (activeCount this < maxConcurrent (queue_config this))"

text \<open>
  A history of a queue: calls of \<open>enqueue\<close> and completions of running tasks, in any
  interleaving. Every state the queue can be in is \<open>run\<close> of a new queue on some history.
\<close>

datatype 'a queue_call = Enqueue 'a | Settle 'a

fun step :: "'a RequestQueue \<Rightarrow> 'a queue_call \<Rightarrow> 'a RequestQueue" where
  "step this (Enqueue task) = snd (enqueue this task)"
| "step this (Settle task) = settle this task"

fun run :: "'a RequestQueue \<Rightarrow> 'a queue_call list \<Rightarrow> 'a RequestQueue" where
  "run this [] = this"
| "run this (c # cs) = run (step this c) cs"

text \<open>The results of consecutive calls of \<open>enqueue\<close>, no task settling in between.\<close>

fun enqueue_all :: "'a RequestQueue \<Rightarrow> 'a list \<Rightarrow> (queue_error + admission) list" where
  "enqueue_all this [] = []"
| "enqueue_all this (task # tasks) =
     fst (enqueue this task) # enqueue_all (snd (enqueue this task)) tasks"

text \<open>The projections of the steps.\<close>

fun accepted :: "'a queue_event list \<Rightarrow> 'a list" where
  "accepted [] = []"
| "accepted (Accepted t # es) = t # accepted es"
| "accepted (e # es) = accepted es"

fun pushed :: "'a queue_event list \<Rightarrow> 'a list" where
  "pushed [] = []"
| "pushed (Pushed t # es) = t # pushed es"
| "pushed (e # es) = pushed es"

fun shifted :: "'a queue_event list \<Rightarrow> 'a list" where
  "shifted [] = []"
| "shifted (Shifted t # es) = t # shifted es"
| "shifted (e # es) = shifted es"

fun started :: "'a queue_event list \<Rightarrow> 'a list" where
  "started [] = []"
| "started (Started t # es) = t # started es"
| "started (e # es) = started es"

text \<open>
  The invariant behind the ordering properties: what was removed from the pending array,
  followed by what is still in it, is what was appended to it; every accepted task
  has started or is pending, in the order of acceptance; a task waits only while all
  slots are taken; the counter is the number of running tasks; and the pending array
  stays within a non-negative bound.
\<close>

definition fifo_inv :: "'a RequestQueue \<Rightarrow> bool" where
  "fifo_inv q \<longleftrightarrow>
     shifted (steps q) @ queue q = pushed (steps q) \<and>
     started (steps q) @ queue q = accepted (steps q) \<and>
     (queue q \<noteq> [] \<longrightarrow> activeCount q \<ge> maxConcurrent (queue_config q)) \<and>
     activeCount q = int (length (running q)) \<and>
     (0 \<le> maxQueueSize (queue_config q) \<longrightarrow>
        int (length (queue q)) \<le> maxQueueSize (queue_config q))"

section \<open>session.ts: parsing the client token\<close>

text \<open>
  JSON values, and the JavaScript values the parser handles: \<open>undefined\<close>, a JSON
  value (\<open>null\<close>, a boolean, a number, a string, an array or an object), or a
  built-in function reached through a prototype.
\<close>

datatype json =
    JNull
  | JBool bool
  | JNum real
  | JStr string
  | JArr "json list"
  | JObj "(string \<times> json) list"

datatype jsval = Undefined | Builtin string | Val json

record ClientTokenPayload =
  userId :: jsval
  clientId :: jsval

datatype js_exception = InvalidCharacterError | SyntaxError | TypeError

definition empty_payload :: ClientTokenPayload where
  "empty_payload = \<lparr>userId = Val (JStr ''''), clientId = Val (JStr '''')\<rparr>"

text \<open>\<open>!v\<close> is the negation of \<open>truthy v\<close>; \<open>a || b\<close> is \<open>a\<close> when it is truthy, else \<open>b\<close>.\<close>

fun truthy :: "jsval \<Rightarrow> bool" where
  "truthy Undefined = False"
| "truthy (Builtin f) = True"
| "truthy (Val JNull) = False"
| "truthy (Val (JBool b)) = b"
| "truthy (Val (JNum x)) = (x \<noteq> 0)"
| "truthy (Val (JStr s)) = (s \<noteq> [])"
| "truthy (Val (JArr xs)) = True"
| "truthy (Val (JObj kvs)) = True"

definition js_or :: "jsval \<Rightarrow> jsval \<Rightarrow> jsval" where
  "js_or a b = (if truthy a then a else b)"

text \<open>
  Reading a property of a parsed JSON value: of \<open>null\<close> it throws a TypeError, of an
  object it gives the member or \<open>undefined\<close>, of a string only \<open>sub\<close> exists among the
  names the parser reads (the method \<open>String.prototype.sub\<close>), and of the other
  values none of them exists.
\<close>

fun get_property :: "json \<Rightarrow> string \<Rightarrow> js_exception + jsval" where
  "get_property JNull name = Inl TypeError"
| "get_property (JObj kvs) name =
     Inr (case map_of kvs name of None \<Rightarrow> Undefined | Some v \<Rightarrow> Val v)"
| "get_property (JStr s) name =
     Inr (if name = ''sub'' then Builtin ''String.prototype.sub'' else Undefined)"
| "get_property v name = Inr Undefined"

text \<open>\<open>s.split(".")\<close>: the pieces between the separators; the empty string gives one empty piece.\<close>

fun split :: "char \<Rightarrow> string \<Rightarrow> string list" where
  "split sep [] = [[]]"
| "split sep (c # cs) =
     (if c = sep then [] # split sep cs
      else (case split sep cs of
              [] \<Rightarrow> [[c]]
            | piece # pieces \<Rightarrow> (c # piece) # pieces))"

text \<open>\<open>s.replace(/a/g, "b")\<close> for single characters.\<close>

definition replace_all :: "char \<Rightarrow> char \<Rightarrow> string \<Rightarrow> string" where
  "replace_all a b s = map (\<lambda>c. if c = a then b else c) s"

text \<open>The base64 text handed to \<open>atob\<close>: the second piece, translated and padded.\<close>

definition padded_payload :: "string list \<Rightarrow> string" where
  "padded_payload parts =
     (let payloadBase64 = parts ! 1;
          base64 = replace_all CHR ''_'' CHR ''/'' (replace_all CHR ''-'' CHR ''+'' payloadBase64);
          padded = base64 @ replicate ((4 - (length base64 mod 4)) mod 4) CHR ''=''
      in padded)"

text \<open>
  The body of the \<open>try\<close> block. The platform functions \<open>atob\<close> and \<open>JSON.parse\<close>
  are parameters; each gives \<open>None\<close> where the real one throws. The exceptions of
  the block are the \<open>Inl\<close> results.
\<close>

definition parseClientToken_try ::
  "(string \<Rightarrow> string option) \<Rightarrow> (string \<Rightarrow> json option) \<Rightarrow> jsval
     \<Rightarrow> js_exception + ClientTokenPayload" where
  "parseClientToken_try atob JSON_parse token =
     (case token of
        Val (JStr s) \<Rightarrow>
          if \<not> truthy token then Inr empty_payload
          else
            (let parts = split CHR ''.'' s
             in if length parts \<noteq> 3 then Inr empty_payload
                else
                  (case atob (padded_payload parts) of
                     None \<Rightarrow> Inl InvalidCharacterError
                   | Some payloadJson \<Rightarrow>
                       (case JSON_parse payloadJson of
                          None \<Rightarrow> Inl SyntaxError
                        | Some payload \<Rightarrow>
                            (case get_property payload ''sub'' of
                               Inl e \<Rightarrow> Inl e
                             | Inr sub \<Rightarrow>
                            (case get_property payload ''user_id'' of
                               Inl e \<Rightarrow> Inl e
                             | Inr user_id \<Rightarrow>
                            (case get_property payload ''client_id'' of
                               Inl e \<Rightarrow> Inl e
                             | Inr client_id \<Rightarrow>
                            (case get_property payload ''azp'' of
                               Inl e \<Rightarrow> Inl e
                             | Inr azp \<Rightarrow>
                            (case get_property payload ''aud'' of
                               Inl e \<Rightarrow> Inl e
                             | Inr aud \<Rightarrow>
                                 Inr \<lparr>userId = js_or (js_or sub user_id) (Val (JStr '''')),
                                      clientId =
                                        js_or (js_or (js_or client_id azp) aud)
                                          (Val (JStr ''''))\<rparr>))))))))
      | other \<Rightarrow> Inr empty_payload)"

text \<open>The function: the \<open>catch\<close> block turns every exception of the body into the empty payload.\<close>

definition parseClientToken ::
  "(string \<Rightarrow> string option) \<Rightarrow> (string \<Rightarrow> json option) \<Rightarrow> jsval
     \<Rightarrow> js_exception + ClientTokenPayload" where
  "parseClientToken atob JSON_parse token =
     (case parseClientToken_try atob JSON_parse token of
        Inl e \<Rightarrow> Inr empty_payload
      | Inr payload \<Rightarrow> Inr payload)"

text \<open>
  The malformed inputs: anything that is not a string (\<open>null\<close> and \<open>undefined\<close>
  among them), the empty string, a string that does not split into three pieces at
  the dots, and a string whose second piece \<open>atob\<close> or \<open>JSON.parse\<close> rejects.
\<close>

definition malformed_token ::
  "(string \<Rightarrow> string option) \<Rightarrow> (string \<Rightarrow> json option) \<Rightarrow> jsval \<Rightarrow> bool" where
  "malformed_token atob JSON_parse token =
     (case token of
        Val (JStr s) \<Rightarrow>
          s = [] \<or> length (split CHR ''.'' s) \<noteq> 3 \<or>
          (case atob (padded_payload (split CHR ''.'' s)) of
             None \<Rightarrow> True
           | Some payloadJson \<Rightarrow> JSON_parse payloadJson = None)
      | other \<Rightarrow> True)"

text \<open>Platform functions that reject every input.\<close>

definition atob_rejecting :: "string \<Rightarrow> string option" where
  "atob_rejecting s = None"

definition JSON_parse_rejecting :: "string \<Rightarrow> json option" where
  "JSON_parse_rejecting s = None"

text \<open>The configuration of the capacity scenario.\<close>

definition config_2_3 :: QueueConfig where
  "config_2_3 = \<lparr>maxConcurrent = 2, maxQueueSize = 3\<rparr>"

text \<open>The configuration of the ordering scenario: one task at a time.\<close>

definition config_sequential :: QueueConfig where
  "config_sequential = \<lparr>maxConcurrent = 1, maxQueueSize = 100\<rparr>"

section \<open>Properties of retry.ts\<close>

text \<open>
  C6. For all status, attempt and maxRetries, \<open>shouldRetry\<close> is true exactly when the
  status is 0 or a 5xx status and \<open>attempt < maxRetries\<close>. So it is false whenever
  \<open>attempt \<ge> maxRetries\<close>, whatever the status, and false for every 4xx status and
  every success status (200..299), whatever budget remains.
\<close>

theorem shouldRetry_iff:
  "(shouldRetry status attempt max_retries
      \<longleftrightarrow> (status = 0 \<or> (500 \<le> status \<and> status < 600)) \<and> attempt < max_retries)
   \<and> (attempt \<ge> max_retries \<longrightarrow> \<not> shouldRetry status attempt max_retries)
   \<and> (400 \<le> status \<and> status < 500 \<longrightarrow> \<not> shouldRetry status attempt max_retries)
   \<and> (200 \<le> status \<and> status \<le> 299 \<longrightarrow> \<not> shouldRetry status attempt max_retries)"
  by (auto simp: shouldRetry_def)

theorem shouldRetry_iff_witness:
  "shouldRetry 503 2 3 \<and> shouldRetry 0 0 3
   \<and> ((3::int) \<ge> 3 \<and> \<not> shouldRetry 503 3 3)
   \<and> ((400::int) \<le> 404 \<and> (404::int) < 500 \<and> \<not> shouldRetry 404 0 3)
   \<and> ((200::int) \<le> 200 \<and> (200::int) \<le> 299 \<and> \<not> shouldRetry 200 0 3)"
  using shouldRetry_iff [of 503 2 3] shouldRetry_iff [of 0 0 3] shouldRetry_iff [of 503 3 3]
    shouldRetry_iff [of 404 0 3] shouldRetry_iff [of 200 0 3]
  by simp

text \<open>
  C7, as amended. For every integer \<open>attempt \<ge> 0\<close> the delay is
  \<open>min (base * 2 ^ attempt) max\<close>; a negative attempt gives the delay of attempt 0;
  a fractional attempt is rounded down to its integer floor (clamped at 0) before it
  is used, so only fractional inputs below 1 are treated as 0; and the five values
  of the scenario hold. The function has no failing branch.
\<close>

theorem calculateBackoff_floor_clamped:
  "calculateBackoff (real n) base maxd = min (base * 2 ^ n) maxd
   \<and> (attempt < 0 \<longrightarrow> calculateBackoff attempt base maxd = calculateBackoff 0 base maxd)
   \<and> calculateBackoff attempt base maxd = calculateBackoff (of_int (max 0 \<lfloor>attempt\<rfloor>)) base maxd
   \<and> (attempt < 1 \<longrightarrow> calculateBackoff attempt base maxd = calculateBackoff 0 base maxd)
   \<and> calculateBackoff 0 1000 10000 = 1000
   \<and> calculateBackoff 1 1000 10000 = 2000
   \<and> calculateBackoff 2 1000 10000 = 4000
   \<and> calculateBackoff 3 1000 10000 = 8000
   \<and> calculateBackoff 4 1000 10000 = 10000"
proof -
  have "attempt < 1 \<Longrightarrow> max 0 \<lfloor>attempt\<rfloor> = 0"
    by (simp add: max_def floor_le_iff) linarith
  then show ?thesis
    by (simp add: calculateBackoff_def max_def)
qed

theorem calculateBackoff_floor_clamped_witness:
  "calculateBackoff (real 5) 300 10000 = min (300 * 2 ^ 5) 10000
   \<and> ((-2::real) < 0 \<and> calculateBackoff (-2) 1000 10000 = calculateBackoff 0 1000 10000)
   \<and> calculateBackoff (5/2) 1000 10000 = calculateBackoff (of_int (max 0 \<lfloor>5/2::real\<rfloor>)) 1000 10000
   \<and> ((1/2::real) < 1 \<and> calculateBackoff (1/2) 1000 10000 = calculateBackoff 0 1000 10000)
   \<and> calculateBackoff (5/2) 1000 10000 = 4000"
  using calculateBackoff_floor_clamped [of 5 300 10000 "-2"]
    calculateBackoff_floor_clamped [of 0 1000 10000 "5/2"]
    calculateBackoff_floor_clamped [of 0 1000 10000 "1/2"]
  by (simp add: calculateBackoff_def)

text \<open>
  The claim as written fails for a fractional attempt of 1 or more: 2.5 is treated
  as 2, not as 0.
\<close>

theorem calculateBackoff_fractional_counterexample:
  "calculateBackoff (5/2) 1000 10000 \<noteq> calculateBackoff 0 1000 10000"
  by (simp add: calculateBackoff_def)

subsection \<open>The retry loop\<close>

lemma attempts_trace_Suc:
  "0 < n \<Longrightarrow> attempts_trace b m (Suc n) =
     attempts_trace b m n @ [Sleep (calculateBackoff (real n - 1) b m), Fetch]"
  by (cases n) simp_all

lemma fetchWithRetry_loop_trace:
  assumes "calls w = attempt" "trace w = attempts_trace b m attempt" "int attempt \<le> mr"
  shows "let w' = snd (fetchWithRetry_loop up mr b m attempt le ls w)
         in attempt < calls w' \<and> int (calls w') \<le> mr + 1 \<and> trace w' = attempts_trace b m (calls w')"
  using assms
proof (induction up mr b m attempt le ls w rule: fetchWithRetry_loop.induct)
  case (1 up mr b m attempt le ls w)
  define w1 where "w1 = (if attempt > 0 then do_sleep (calculateBackoff (real attempt - 1) b m) w else w)"
  define w2 where "w2 = snd (do_fetch up w1)"
  define r where "r = fst (do_fetch up w1)"
  have c2: "calls w2 = attempt + 1"
    using "1.prems" by (simp add: w1_def w2_def do_fetch_def do_sleep_def)
  have t2: "trace w2 = attempts_trace b m (attempt + 1)"
    using "1.prems" by (cases "attempt = 0") (simp_all add: w1_def w2_def do_fetch_def do_sleep_def attempts_trace_Suc)
  have unfold: "fetchWithRetry_loop up mr b m attempt le ls w =
     (case r of
        Replied response \<Rightarrow>
          if ok response \<or> (status_code response \<ge> 400 \<and> status_code response < 500)
          then (Inr response, w2)
          else if \<not> shouldRetry (status_code response) (int attempt) mr
          then (Inr response, w2)
          else fetchWithRetry_loop up mr b m (attempt + 1) le (status_code response) w2
      | NetworkError msg \<Rightarrow>
          if \<not> shouldRetry 0 (int attempt) mr
          then (Inl (UpstreamError (int attempt + 1) (ErrorMessage msg)), w2)
          else fetchWithRetry_loop up mr b m (attempt + 1) (Some msg) 0 w2)"
    using "1.prems"(3)
    by (subst fetchWithRetry_loop.simps) (simp only: w1_def w2_def r_def Let_def if_True)
  show ?case
  proof (cases r)
    case (NetworkError msg)
    show ?thesis
    proof (cases "shouldRetry 0 (int attempt) mr")
      case True
      then have le': "int (attempt + 1) \<le> mr" by (simp add: shouldRetry_def split: if_splits)
      have "let w' = snd (fetchWithRetry_loop up mr b m (attempt + 1) (Some msg) 0 w2)
            in attempt + 1 < calls w' \<and> int (calls w') \<le> mr + 1 \<and> trace w' = attempts_trace b m (calls w')"
        using "1.prems"(3) NetworkError True c2 t2 le'
        unfolding w1_def w2_def r_def
        by (intro "1.IH"(1)[OF _ refl refl refl]) simp_all
      then show ?thesis
        using NetworkError True by (simp add: unfold Let_def)
    next
      case False
      then show ?thesis
        using NetworkError c2 t2 "1.prems"(3) by (simp add: unfold Let_def)
    qed
  next
    case (Replied resp)
    show ?thesis
    proof (cases "\<not> (ok resp \<or> (status_code resp \<ge> 400 \<and> status_code resp < 500)) \<and> shouldRetry (status_code resp) (int attempt) mr")
      case True
      then have le': "int (attempt + 1) \<le> mr" by (simp add: shouldRetry_def split: if_splits)
      have "let w' = snd (fetchWithRetry_loop up mr b m (attempt + 1) le (status_code resp) w2)
            in attempt + 1 < calls w' \<and> int (calls w') \<le> mr + 1 \<and> trace w' = attempts_trace b m (calls w')"
        using "1.prems"(3) Replied True c2 t2 le'
        unfolding w1_def w2_def r_def
        by (intro "1.IH"(2)[OF _ refl refl refl]) simp_all
      then show ?thesis
        using Replied True by (auto simp add: unfold Let_def)
    next
      case False
      then show ?thesis
        using Replied c2 t2 "1.prems"(3) by (auto simp add: unfold Let_def)
    qed
  qed
qed

text \<open>
  C5. For every upstream behaviour and every \<open>maxRetries \<ge> 0\<close>, a run of
  \<open>fetchWithRetry\<close> calls the operation at least once and at most
  \<open>maxRetries + 1\<close> times, and its effects are exactly those of that many attempts:
  the retry number \<open>n\<close> is preceded by one suspension of
  \<open>calculateBackoff (n - 1) baseDelay maxDelay\<close>, the first retry by
  \<open>calculateBackoff 0 baseDelay maxDelay\<close>.
\<close>

theorem fetchWithRetry_attempts_and_delays:
  assumes "0 \<le> max_retries"
  shows "1 \<le> calls (snd (fetchWithRetry upstream max_retries baseDelay maxDelay world0))
     \<and> int (calls (snd (fetchWithRetry upstream max_retries baseDelay maxDelay world0)))
          \<le> max_retries + 1
     \<and> trace (snd (fetchWithRetry upstream max_retries baseDelay maxDelay world0)) =
         attempts_trace baseDelay maxDelay
           (calls (snd (fetchWithRetry upstream max_retries baseDelay maxDelay world0)))"
  using fetchWithRetry_loop_trace [of world0 0 baseDelay maxDelay max_retries upstream None 0] assms
  by (simp add: fetchWithRetry_def world0_def Let_def)

lemma fetchWithRetry_always_down:
  "fetchWithRetry always_down 3 1000 10000 world0 =
     (Inl (UpstreamError 4 (ErrorMessage ''down'')),
      \<lparr>calls = 4, trace = [Fetch, Sleep 1000, Fetch, Sleep 2000, Fetch, Sleep 4000, Fetch]\<rparr>)"
  by (simp add: fetchWithRetry_def fetchWithRetry_loop.simps world0_def shouldRetry_def
      do_fetch_def do_sleep_def calculateBackoff_def always_down_def Let_def)

theorem fetchWithRetry_attempts_and_delays_witness:
  "(0::int) \<le> 3
   \<and> snd (fetchWithRetry always_down 3 1000 10000 world0) =
       \<lparr>calls = 4, trace = [Fetch, Sleep 1000, Fetch, Sleep 2000, Fetch, Sleep 4000, Fetch]\<rparr>
   \<and> 1 \<le> calls (snd (fetchWithRetry always_down 3 1000 10000 world0))
   \<and> int (calls (snd (fetchWithRetry always_down 3 1000 10000 world0))) \<le> 3 + 1
   \<and> trace (snd (fetchWithRetry always_down 3 1000 10000 world0)) =
       attempts_trace 1000 10000 (calls (snd (fetchWithRetry always_down 3 1000 10000 world0)))"
  using fetchWithRetry_attempts_and_delays [of 3 always_down 1000 10000]
  by (simp add: fetchWithRetry_always_down)

section \<open>Properties of the session credential fetch and cache\<close>

lemma session_calculateBackoff_nat:
  "session_calculateBackoff (real n) = min (1000 * 2 ^ n) 10000"
  by (simp add: session_calculateBackoff_def RETRY_CONFIG_def powr_realpow)

lemma clerk_attempt_fails:
  assumes "fails_every_attempt upstream"
  shows "\<exists>e. clerk_attempt (upstream k) = Inl e"
proof (cases "upstream k")
  case (NetworkError msg)
  then show ?thesis by (simp add: clerk_attempt_def)
next
  case (Replied response)
  with assms have "500 \<le> status_code response"
    by (auto simp: fails_every_attempt_def split: http_outcome.splits dest: spec[of _ k])
  with Replied show ?thesis by (simp add: clerk_attempt_def ok_def)
qed

lemma fetchSessionIdFromClerk_all_fail:
  assumes "fails_every_attempt upstream"
  shows "fetchSessionIdFromClerk upstream tok world0 =
     (clerk_attempt (upstream 2),
      \<lparr>calls = 3, trace = [Fetch, Sleep 1000, Fetch, Sleep 2000, Fetch]\<rparr>)"
proof -
  obtain e0 e1 e2 where e: "clerk_attempt (upstream 0) = Inl e0"
    "clerk_attempt (upstream (Suc 0)) = Inl e1" "clerk_attempt (upstream (Suc (Suc 0))) = Inl e2"
    using clerk_attempt_fails[OF assms] by metis
  show ?thesis
    by (simp add: fetchSessionIdFromClerk_def fetchSessionIdFromClerk_loop.simps world0_def e
      do_fetch_def do_sleep_def session_calculateBackoff_def RETRY_CONFIG_def Let_def numeral_2_eq_2 numeral_3_eq_3)
qed

lemma retryable_cases:
  assumes "fails_every_attempt upstream"
  obtains msg where "upstream k = NetworkError msg"
  | r where "upstream k = Replied r" "500 \<le> status_code r" "status_code r < 600"
  using assms by (cases "upstream k") (auto simp: fails_every_attempt_def split: http_outcome.splits dest: spec[of _ k])

lemma fetchWithRetry_loop_all_fail:
  assumes "fails_every_attempt upstream" "calls w = attempt" "int attempt \<le> mr"
  shows "calls (snd (fetchWithRetry_loop upstream mr b m attempt le ls w)) = nat mr + 1"
  using assms(2,3)
proof (induction "nat mr - attempt" arbitrary: attempt w le ls)
  case 0
  then have last: "int attempt = mr" by simp
  show ?case
  proof (rule retryable_cases[OF assms(1), of attempt])
    fix msg assume "upstream attempt = NetworkError msg"
    then show ?thesis using last "0.prems"
      by (subst fetchWithRetry_loop.simps) (auto simp: Let_def do_fetch_def do_sleep_def shouldRetry_def)
  next
    fix r assume "upstream attempt = Replied r" "500 \<le> status_code r" "status_code r < 600"
    then show ?thesis using last "0.prems"
      by (subst fetchWithRetry_loop.simps) (auto simp: Let_def do_fetch_def do_sleep_def shouldRetry_def ok_def)
  qed
next
  case (Suc n)
  then have less: "int attempt < mr" by simp
  define w2 where "w2 = snd (do_fetch upstream
     (if attempt > 0 then do_sleep (calculateBackoff (real attempt - 1) b m) w else w))"
  have c2: "calls w2 = attempt + 1"
    using Suc.prems by (simp add: w2_def do_fetch_def do_sleep_def)
  have ih: "calls (snd (fetchWithRetry_loop upstream mr b m (attempt + 1) le' ls' w2)) = nat mr + 1"
    for le' ls'
    using Suc.hyps(2) less c2 by (intro Suc.hyps(1)) simp_all
  show ?case
  proof (rule retryable_cases[OF assms(1), of attempt])
    fix msg assume "upstream attempt = NetworkError msg"
    then have "fetchWithRetry_loop upstream mr b m attempt le ls w =
               fetchWithRetry_loop upstream mr b m (attempt + 1) (Some msg) 0 w2"
      using less Suc.prems
      by (subst fetchWithRetry_loop.simps) (auto simp: Let_def w2_def do_fetch_def do_sleep_def shouldRetry_def)
    then show ?thesis using ih by simp
  next
    fix r assume "upstream attempt = Replied r" "500 \<le> status_code r" "status_code r < 600"
    then have "fetchWithRetry_loop upstream mr b m attempt le ls w =
               fetchWithRetry_loop upstream mr b m (attempt + 1) le (status_code r) w2"
      using less Suc.prems
      by (subst fetchWithRetry_loop.simps) (auto simp: Let_def w2_def do_fetch_def do_sleep_def shouldRetry_def ok_def)
    then show ?thesis using ih by simp
  qed
qed

lemma always_down_fails: "fails_every_attempt always_down"
  by (simp add: fails_every_attempt_def always_down_def)

text \<open>
  C4, as amended. The credential fetch has a retry loop of its own and does not call
  \<open>fetchWithRetry\<close>; in it \<open>maxRetries\<close> bounds the attempts, not the retries. Under
  the configuration (3, 1000 ms, 10000 ms), against an upstream that fails on every
  attempt, \<open>fetchSessionIdFromClerk\<close> makes exactly 3 attempts with the delays 1000
  and 2000 between them and then surfaces the error of the last attempt, while
  \<open>fetchWithRetry\<close> makes 4 attempts with the delays 1000, 2000 and 4000.
\<close>

theorem session_fetch_attempts_differ_from_retry_controller:
  assumes "fails_every_attempt upstream"
  shows "fst (fetchSessionIdFromClerk upstream tok world0) = clerk_attempt (upstream 2)
     \<and> isl (fst (fetchSessionIdFromClerk upstream tok world0))
     \<and> snd (fetchSessionIdFromClerk upstream tok world0) =
         \<lparr>calls = 3, trace = [Fetch, Sleep 1000, Fetch, Sleep 2000, Fetch]\<rparr>
     \<and> snd (fetchWithRetry upstream (maxRetries RETRY_CONFIG) (baseDelayMs RETRY_CONFIG)
              (maxDelayMs RETRY_CONFIG) world0) =
         \<lparr>calls = 4,
          trace = [Fetch, Sleep 1000, Fetch, Sleep 2000, Fetch, Sleep 4000, Fetch]\<rparr>"
proof -
  let ?w = "snd (fetchWithRetry upstream 3 1000 10000 world0)"
  have c: "calls ?w = 4"
    using fetchWithRetry_loop_all_fail [OF assms, of world0 0 3 1000 10000 None 0]
    by (simp add: fetchWithRetry_def world0_def)
  have "trace ?w = attempts_trace 1000 10000 (calls ?w)"
    using fetchWithRetry_loop_trace [of world0 0 1000 10000 3 upstream None 0]
    by (simp add: fetchWithRetry_def world0_def Let_def)
  then have t: "trace ?w = [Fetch, Sleep 1000, Fetch, Sleep 2000, Fetch, Sleep 4000, Fetch]"
    by (simp add: c numeral_eq_Suc calculateBackoff_def)
  have w: "?w = \<lparr>calls = 4,
      trace = [Fetch, Sleep 1000, Fetch, Sleep 2000, Fetch, Sleep 4000, Fetch]\<rparr>"
    using c t by (cases ?w) simp
  obtain e where "clerk_attempt (upstream 2) = Inl e"
    using clerk_attempt_fails [OF assms] by blast
  then show ?thesis
    using w by (simp add: fetchSessionIdFromClerk_all_fail [OF assms] RETRY_CONFIG_def)
qed

theorem session_fetch_attempts_differ_from_retry_controller_witness:
  "fails_every_attempt always_down
   \<and> fst (fetchSessionIdFromClerk always_down ''token'' world0) = Inl (FetchRejected ''down'')
   \<and> snd (fetchSessionIdFromClerk always_down ''token'' world0) =
       \<lparr>calls = 3, trace = [Fetch, Sleep 1000, Fetch, Sleep 2000, Fetch]\<rparr>
   \<and> snd (fetchWithRetry always_down (maxRetries RETRY_CONFIG) (baseDelayMs RETRY_CONFIG)
            (maxDelayMs RETRY_CONFIG) world0) =
       \<lparr>calls = 4,
        trace = [Fetch, Sleep 1000, Fetch, Sleep 2000, Fetch, Sleep 4000, Fetch]\<rparr>"
  using session_fetch_attempts_differ_from_retry_controller [OF always_down_fails, of "''token''"]
  by (simp add: always_down_fails clerk_attempt_def always_down_def)

text \<open>
  The claim as written fails: against the upstream that is always down the credential
  fetch makes 3 attempts and the Retry Controller, under the same configuration, 4.
\<close>

theorem session_fetch_same_attempts_counterexample:
  "calls (snd (fetchSessionIdFromClerk always_down ''token'' world0)) = 3
   \<and> calls (snd (fetchWithRetry always_down 3 1000 10000 world0)) = 4
   \<and> trace (snd (fetchSessionIdFromClerk always_down ''token'' world0))
       \<noteq> trace (snd (fetchWithRetry always_down 3 1000 10000 world0))"
  by (simp add: fetchSessionIdFromClerk_all_fail [OF always_down_fails]
      fetchWithRetry_always_down)

text \<open>
  C8. For every prior cache state: when \<open>getSessionId\<close> takes the refresh path (forced
  refresh, no entry, or an expired entry) and the credential fetch fails, the caller
  gets that error and the cached entry, token and expiry, is the one from before.
\<close>

theorem getSessionId_failed_refresh_keeps_cache:
  assumes "forceRefresh \<or> (case cachedSession of None \<Rightarrow> True | Some c \<Rightarrow> \<not> now < expiresAt c)"
    and "fst (fetchSessionIdFromClerk upstream tok w) = Inl err"
  shows "fst (getSessionId upstream now now' tok forceRefresh cachedSession w) = Inl err
     \<and> fst (snd (getSessionId upstream now now' tok forceRefresh cachedSession w)) = cachedSession"
  using assms
  by (auto simp: getSessionId_def refreshSession_def split: option.splits prod.splits sum.splits)

theorem getSessionId_failed_refresh_keeps_cache_witness:
  "\<not> (200::int) < expiresAt \<lparr>sessionId = ''old'', expiresAt = 100\<rparr>
   \<and> fst (fetchSessionIdFromClerk always_down ''token'' world0) = Inl (FetchRejected ''down'')
   \<and> fst (getSessionId always_down 200 300 ''token'' False
            (Some \<lparr>sessionId = ''old'', expiresAt = 100\<rparr>) world0) = Inl (FetchRejected ''down'')
   \<and> fst (snd (getSessionId always_down 200 300 ''token'' False
            (Some \<lparr>sessionId = ''old'', expiresAt = 100\<rparr>) world0)) =
       Some \<lparr>sessionId = ''old'', expiresAt = 100\<rparr>"
proof -
  have f: "fst (fetchSessionIdFromClerk always_down ''token'' world0) = Inl (FetchRejected ''down'')"
    by (simp add: fetchSessionIdFromClerk_all_fail [OF always_down_fails] clerk_attempt_def
        always_down_def)
  show ?thesis
    using getSessionId_failed_refresh_keeps_cache [where forceRefresh = False
        and cachedSession = "Some \<lparr>sessionId = ''old'', expiresAt = 100\<rparr>" and now = 200
        and upstream = always_down and tok = "''token''" and w = world0
        and err = "FetchRejected ''down''" and now' = 300] f
    by simp
qed

section \<open>Properties of the rate limiter\<close>

lemma recordRequest_config: "config (recordRequest this now c) = config this"
  by (simp add: recordRequest_def Let_def)

lemma recordRequests_config: "config (recordRequests this ts c) = config this"
  by (induction ts arbitrary: this) (simp_all add: recordRequest_config)

lemma stored_recordRequest:
  "enabled (config this) \<Longrightarrow>
   stored_timestamps (recordRequest this t c) c =
     filter (\<lambda>x. x > t - windowMs (config this)) (stored_timestamps this c) @ [t]"
  by (simp add: recordRequest_def stored_timestamps_def Let_def filter_map o_def split: option.splits)

lemma in_window_after_recording:
  assumes "enabled (config this)"
    and "\<forall>t \<in> set ts. now - windowMs (config this) < t \<and> t \<le> now"
  shows "filter (\<lambda>x. x > now - windowMs (config this)) (stored_timestamps (recordRequests this ts c) c) =
         filter (\<lambda>x. x > now - windowMs (config this)) (stored_timestamps this c) @ ts"
  using assms
proof (induction ts arbitrary: this)
  case Nil
  then show ?case by simp
next
  case (Cons t ts)
  have en: "enabled (config (recordRequest this t c))"
    using Cons.prems(1) by (simp add: recordRequest_config)
  have t: "now - windowMs (config this) < t" "t \<le> now" using Cons.prems(2) by simp_all
  have keep: "filter (\<lambda>x. t - windowMs (config this) < x \<and> now - windowMs (config this) < x) xs =
              filter (\<lambda>x. now - windowMs (config this) < x) xs" for xs
    using t by (intro filter_cong) auto
  have "filter (\<lambda>x. x > now - windowMs (config this))
          (stored_timestamps (recordRequests (recordRequest this t c) ts c) c) =
        filter (\<lambda>x. x > now - windowMs (config this)) (stored_timestamps (recordRequest this t c) c) @ ts"
    using Cons.IH[OF en] Cons.prems(2) by (simp add: recordRequest_config)
  then show ?case
    using t by (simp add: stored_recordRequest[OF Cons.prems(1)] keep)
qed

lemma checkLimit_by_window:
  assumes "enabled (config this)"
    and "filter (\<lambda>x. x > now - windowMs (config this)) (stored_timestamps this c) = ts"
  shows "fst (checkLimit this now c) =
     (if int (length ts) \<ge> maxRequests (config this)
      then \<lparr>allowed = False,
            retryAfter = Some (max 1 \<lceil>real_of_int
               (case ts of t # _ \<Rightarrow> t + windowMs (config this) - now | [] \<Rightarrow> windowMs (config this)) / 1000\<rceil>),
            remaining = 0\<rparr>
      else \<lparr>allowed = True, retryAfter = None, remaining = maxRequests (config this) - int (length ts)\<rparr>)"
proof -
  define rs where "rs = filter (\<lambda>r. timestamp r > now - windowMs (config this))
      (case requests this c of None \<Rightarrow> [] | Some rs \<Rightarrow> rs)"
  have m: "map timestamp rs = ts"
    using assms(2) by (simp add: rs_def stored_timestamps_def filter_map o_def split: option.splits)
  then have l: "length rs = length ts" by (metis length_map)
  have hd: "(case rs of r # _ \<Rightarrow> timestamp r + windowMs (config this) - now | [] \<Rightarrow> windowMs (config this))
       = (case ts of t # _ \<Rightarrow> t + windowMs (config this) - now | [] \<Rightarrow> windowMs (config this))"
    using m by (cases rs) auto
  show ?thesis
    using assms(1) l hd unfolding checkLimit_def Let_def rs_def[symmetric]
    by (auto simp: max_def)
qed

text \<open>
  C3. For an enabled limiter and a client whose earlier records, if any, have left
  the window: let requests be recorded at the instants \<open>ts\<close>, all within the window
  that ends at \<open>now\<close>. If their number is \<open>maxRequests\<close> (at least one), \<open>checkLimit\<close>
  at \<open>now\<close> answers not allowed, nothing remaining, and a retry hint of
  \<open>ceil ((first + windowMs - now) / 1000)\<close> seconds, at least 1, where \<open>first\<close> is the
  first retained timestamp, the oldest one when the clock never runs backwards. If
  their number \<open>k\<close> is below \<open>maxRequests\<close>, the answer is allowed with
  \<open>maxRequests - k\<close> remaining.
\<close>

theorem checkLimit_after_recording:
  assumes "enabled (config this)"
    and "\<forall>t \<in> set (stored_timestamps this c). t \<le> now - windowMs (config this)"
    and "\<forall>t \<in> set ts. now - windowMs (config this) < t \<and> t \<le> now"
  shows "(ts \<noteq> [] \<and> int (length ts) = maxRequests (config this) \<longrightarrow>
            fst (checkLimit (recordRequests this ts c) now c) =
              \<lparr>allowed = False,
               retryAfter = Some (max 1 \<lceil>real_of_int (hd ts + windowMs (config this) - now) / 1000\<rceil>),
               remaining = 0\<rparr>)
     \<and> (int (length ts) < maxRequests (config this) \<longrightarrow>
            fst (checkLimit (recordRequests this ts c) now c) =
              \<lparr>allowed = True, retryAfter = None,
               remaining = maxRequests (config this) - int (length ts)\<rparr>)
     \<and> (ts \<noteq> [] \<and> sorted ts \<longrightarrow> hd ts = Min (set ts))"
proof -
  let ?L = "recordRequests this ts c"
  have old: "filter (\<lambda>x. x > now - windowMs (config this)) (stored_timestamps this c) = []"
    using assms(2) by (auto simp: filter_empty_conv)
  have win: "filter (\<lambda>x. x > now - windowMs (config ?L)) (stored_timestamps ?L c) = ts"
    using in_window_after_recording [OF assms(1,3), of c] old
    by (simp add: recordRequests_config)
  have en: "enabled (config ?L)"
    using assms(1) by (simp add: recordRequests_config)
  have res: "fst (checkLimit ?L now c) =
     (if int (length ts) \<ge> maxRequests (config this)
      then \<lparr>allowed = False,
            retryAfter = Some (max 1 \<lceil>real_of_int
               (case ts of t # _ \<Rightarrow> t + windowMs (config this) - now
                | [] \<Rightarrow> windowMs (config this)) / 1000\<rceil>),
            remaining = 0\<rparr>
      else \<lparr>allowed = True, retryAfter = None,
            remaining = maxRequests (config this) - int (length ts)\<rparr>)"
    using checkLimit_by_window [OF en win] unfolding recordRequests_config .
  have first: "ts \<noteq> [] \<Longrightarrow> sorted ts \<Longrightarrow> hd ts = Min (set ts)"
    by (cases ts) (auto intro!: Min_eqI [symmetric])
  show ?thesis
    using res first by (cases ts) simp_all
qed

lemma limiter_5_per_minute_fields:
  "config limiter_5_per_minute = \<lparr>enabled = True, windowMs = 60000, maxRequests = 5\<rparr>"
  "stored_timestamps limiter_5_per_minute c = []"
  by (simp_all add: limiter_5_per_minute_def new_RateLimiter_def stored_timestamps_def)

theorem checkLimit_after_recording_witness:
  "enabled (config limiter_5_per_minute)
   \<and> set (stored_timestamps limiter_5_per_minute ''c1'') = {}
   \<and> fst (checkLimit (recordRequests limiter_5_per_minute [1000, 2000, 3000, 4000, 5000] ''c1'')
            6000 ''c1'') =
       \<lparr>allowed = False, retryAfter = Some 55, remaining = 0\<rparr>
   \<and> fst (checkLimit (recordRequests limiter_5_per_minute [1000, 2000] ''c1'') 6000 ''c1'') =
       \<lparr>allowed = True, retryAfter = None, remaining = 3\<rparr>
   \<and> hd [1000, 2000, 3000, 4000, 5000] = Min (set [1000, 2000, 3000, 4000, 5000::int])"
  using checkLimit_after_recording [of limiter_5_per_minute "''c1''" 6000
      "[1000, 2000, 3000, 4000, 5000]"]
    checkLimit_after_recording [of limiter_5_per_minute "''c1''" 6000 "[1000, 2000]"]
  by (simp add: limiter_5_per_minute_fields)

text \<open>
  C9. \<open>checkLimit\<close> is read-only: for every limiter and client, the limiter after the
  call is the limiter before it, so the stored timestamps of every client, the
  queried one included, are unchanged and the pruned window is not written back;
  and a second call at the same instant gives the same result.
\<close>

theorem checkLimit_read_only:
  "snd (checkLimit this now c) = this
   \<and> requests (snd (checkLimit this now c)) = requests this
   \<and> stored_timestamps (snd (checkLimit this now c)) c = stored_timestamps this c
   \<and> fst (checkLimit (snd (checkLimit this now c)) now c) = fst (checkLimit this now c)"
proof -
  have unchanged: "snd (checkLimit this now c) = this"
    by (simp add: checkLimit_def Let_def)
  show ?thesis
    by (simp add: unchanged)
qed

section \<open>Properties of the admission queue\<close>

lemma accepted_append [simp]: "accepted (xs @ ys) = accepted xs @ accepted ys"
  by (induction xs rule: accepted.induct) simp_all
lemma pushed_append [simp]: "pushed (xs @ ys) = pushed xs @ pushed ys"
  by (induction xs rule: pushed.induct) simp_all
lemma shifted_append [simp]: "shifted (xs @ ys) = shifted xs @ shifted ys"
  by (induction xs rule: shifted.induct) simp_all
lemma started_append [simp]: "started (xs @ ys) = started xs @ started ys"
  by (induction xs rule: started.induct) simp_all

lemma fifo_inv_new: "fifo_inv (new_RequestQueue cfg)"
  by (simp add: fifo_inv_def new_RequestQueue_def)

lemma fifo_inv_enqueue: "fifo_inv q \<Longrightarrow> fifo_inv (snd (enqueue q t))"
  by (auto simp: fifo_inv_def enqueue_def executeTask_def)

lemma length_pred_int: "t \<in> set xs \<Longrightarrow> int (length xs - Suc 0) = int (length xs) - 1"
  by (cases xs) auto

lemma fifo_inv_settle: "fifo_inv q \<Longrightarrow> fifo_inv (settle q t)"
  by (auto simp: fifo_inv_def settle_def processNext_def executeTask_def length_remove1 length_pred_int
      split: list.splits)

lemma fifo_inv_step: "fifo_inv q \<Longrightarrow> fifo_inv (step q c)"
  by (cases c) (simp_all add: fifo_inv_enqueue fifo_inv_settle)

lemma fifo_inv_run: "fifo_inv q \<Longrightarrow> fifo_inv (run q cs)"
  by (induction cs arbitrary: q) (simp_all add: fifo_inv_step)

lemma config_step: "queue_config (step q c) = queue_config q"
  by (cases c) (auto simp: enqueue_def settle_def processNext_def executeTask_def split: list.splits)

lemma config_run: "queue_config (run q cs) = queue_config q"
  by (induction cs arbitrary: q) (simp_all add: config_step)


lemma run_append: "run q (cs @ ds) = run (run q cs) ds"
  by (induction cs arbitrary: q) simp_all

lemma enqueue_while_busy:
  assumes "activeCount q \<ge> maxConcurrent (queue_config q)"
    and "int (length (queue q) + length ts) \<le> maxQueueSize (queue_config q)"
  shows "queue (run q (map Enqueue ts)) = queue q @ ts
       \<and> activeCount (run q (map Enqueue ts)) = activeCount q
       \<and> running (run q (map Enqueue ts)) = running q
       \<and> started (steps (run q (map Enqueue ts))) = started (steps q)
       \<and> queue_config (run q (map Enqueue ts)) = queue_config q"
  using assms
proof (induction ts arbitrary: q)
  case Nil
  then show ?case by simp
next
  case (Cons t ts)
  let ?q1 = "snd (enqueue q t)"
  have q1: "queue ?q1 = queue q @ [t]" "activeCount ?q1 = activeCount q" "running ?q1 = running q"
    "started (steps ?q1) = started (steps q)" "queue_config ?q1 = queue_config q"
    using Cons.prems by (simp_all add: enqueue_def)
  have "queue (run ?q1 (map Enqueue ts)) = queue ?q1 @ ts
       \<and> activeCount (run ?q1 (map Enqueue ts)) = activeCount ?q1
       \<and> running (run ?q1 (map Enqueue ts)) = running ?q1
       \<and> started (steps (run ?q1 (map Enqueue ts))) = started (steps ?q1)
       \<and> queue_config (run ?q1 (map Enqueue ts)) = queue_config ?q1"
    using Cons.prems by (intro Cons.IH) (simp_all add: q1)
  then show ?case by (simp add: q1)
qed

lemma settle_in_turn:
  assumes "maxConcurrent (queue_config q) = 1" "activeCount q = 1" "running q = [r]"
  shows "queue (run q (map Settle (r # queue q))) = []
       \<and> activeCount (run q (map Settle (r # queue q))) = 0
       \<and> running (run q (map Settle (r # queue q))) = []
       \<and> started (steps (run q (map Settle (r # queue q)))) = started (steps q) @ queue q"
  using assms
proof (induction "queue q" arbitrary: q r)
  case Nil
  then show ?case
    by (simp add: Nil.hyps[symmetric] settle_def processNext_def)
next
  case (Cons h rest)
  let ?q1 = "settle q r"
  have q1: "queue ?q1 = rest" "activeCount ?q1 = 1" "running ?q1 = [h]"
    "started (steps ?q1) = started (steps q) @ [h]" "queue_config ?q1 = queue_config q"
    using Cons.prems Cons.hyps(2)[symmetric]
    by (simp_all add: settle_def processNext_def executeTask_def)
  have "queue (run ?q1 (map Settle (h # queue ?q1))) = []
       \<and> activeCount (run ?q1 (map Settle (h # queue ?q1))) = 0
       \<and> running (run ?q1 (map Settle (h # queue ?q1))) = []
       \<and> started (steps (run ?q1 (map Settle (h # queue ?q1)))) = started (steps ?q1) @ queue ?q1"
    using Cons.prems by (intro Cons.hyps(1)) (simp_all add: q1)
  then show ?case
    by (simp add: q1 Cons.hyps(2)[symmetric])
qed

lemma sequential_scenario:
  assumes "maxConcurrent cfg = 1" "1 \<le> maxQueueSize cfg" "tasks \<noteq> []"
    "int (length tasks) \<le> maxQueueSize cfg + 1"
  shows "started (steps (run (new_RequestQueue cfg) (map Enqueue tasks @ map Settle tasks))) = tasks
       \<and> queue (run (new_RequestQueue cfg) (map Enqueue tasks @ map Settle tasks)) = []
       \<and> activeCount (run (new_RequestQueue cfg) (map Enqueue tasks @ map Settle tasks)) = 0"
proof -
  obtain t ts where tasks: "tasks = t # ts" using assms(3) by (cases tasks) auto
  define q1 where "q1 = snd (enqueue (new_RequestQueue cfg) t)"
  have q1: "queue q1 = []" "activeCount q1 = 1" "running q1 = [t]" "started (steps q1) = [t]"
    "queue_config q1 = cfg"
    using assms(1,2) by (simp_all add: q1_def enqueue_def executeTask_def new_RequestQueue_def)
  define q2 where "q2 = run q1 (map Enqueue ts)"
  have q2: "queue q2 = ts" "activeCount q2 = 1" "running q2 = [t]" "started (steps q2) = [t]"
    "queue_config q2 = cfg"
    using enqueue_while_busy[of q1 ts] assms(1,4) by (simp_all add: q1 q2_def tasks)
  have "run (new_RequestQueue cfg) (map Enqueue tasks @ map Settle tasks) = run q2 (map Settle (t # queue q2))"
    by (simp add: run_append tasks q1_def q2_def q2[unfolded q2_def q1_def])
  then show ?thesis
    using settle_in_turn[of q2 t] assms(1) by (simp add: q2 tasks)
qed

text \<open>
  C1. For every configuration and every history of \<open>enqueue\<close> calls and completions:
  the tasks that \<open>processNext\<close> has taken from the pending array, followed by those
  still in it, are the tasks \<open>enqueue\<close> appended, in that order; and the tasks whose
  work function has been called, followed by the pending ones, are the accepted
  tasks in the order of their acceptance. In particular with \<open>maxConcurrent = 1\<close>
  (and room for the tasks), \<open>N \<ge> 1\<close> tasks enqueued in order and then settling one
  after the other have their work functions called in the order of enqueueing, and
  the queue ends empty and idle.
\<close>

theorem queue_dispatch_is_fifo:
  "shifted (steps (run (new_RequestQueue cfg) history)) @ queue (run (new_RequestQueue cfg) history)
     = pushed (steps (run (new_RequestQueue cfg) history))
   \<and> started (steps (run (new_RequestQueue cfg) history)) @ queue (run (new_RequestQueue cfg) history)
     = accepted (steps (run (new_RequestQueue cfg) history))
   \<and> (maxConcurrent cfg = 1 \<and> 1 \<le> maxQueueSize cfg \<and> tasks \<noteq> []
        \<and> int (length tasks) \<le> maxQueueSize cfg + 1 \<longrightarrow>
      started (steps (run (new_RequestQueue cfg) (map Enqueue tasks @ map Settle tasks))) = tasks
      \<and> queue (run (new_RequestQueue cfg) (map Enqueue tasks @ map Settle tasks)) = []
      \<and> activeCount (run (new_RequestQueue cfg) (map Enqueue tasks @ map Settle tasks)) = 0)"
proof -
  have "fifo_inv (run (new_RequestQueue cfg) history)"
    by (rule fifo_inv_run [OF fifo_inv_new])
  then show ?thesis
    using sequential_scenario [of cfg tasks] by (simp add: fifo_inv_def)
qed

theorem queue_dispatch_is_fifo_witness:
  "maxConcurrent config_sequential = 1
   \<and> 1 \<le> maxQueueSize config_sequential
   \<and> [10, 20, 30 :: nat] \<noteq> []
   \<and> int (length [10, 20, 30 :: nat]) \<le> maxQueueSize config_sequential + 1
   \<and> started (steps (run (new_RequestQueue config_sequential)
         (map Enqueue [10, 20, 30 :: nat] @ map Settle [10, 20, 30]))) = [10, 20, 30]
   \<and> queue (run (new_RequestQueue config_sequential)
         (map Enqueue [10, 20, 30 :: nat] @ map Settle [10, 20, 30])) = []
   \<and> activeCount (run (new_RequestQueue config_sequential)
         (map Enqueue [10, 20, 30 :: nat] @ map Settle [10, 20, 30])) = 0
   \<and> shifted (steps (run (new_RequestQueue config_sequential)
         [Enqueue 10, Enqueue 20, Enqueue 30, Settle 10])) = [20 :: nat]
   \<and> queue (run (new_RequestQueue config_sequential)
         [Enqueue 10, Enqueue 20, Enqueue 30, Settle 10]) = [30 :: nat]
   \<and> pushed (steps (run (new_RequestQueue config_sequential)
         [Enqueue 10, Enqueue 20, Enqueue 30, Settle 10])) = [20, 30 :: nat]"
proof -
  have cfg: "maxConcurrent config_sequential = 1" "1 \<le> maxQueueSize config_sequential"
    "int (length [10, 20, 30 :: nat]) \<le> maxQueueSize config_sequential + 1"
    by (simp_all add: config_sequential_def)
  have partial:
    "shifted (steps (run (new_RequestQueue config_sequential)
         [Enqueue 10, Enqueue 20, Enqueue 30, Settle 10])) = [20 :: nat]"
    "queue (run (new_RequestQueue config_sequential)
         [Enqueue 10, Enqueue 20, Enqueue 30, Settle 10]) = [30 :: nat]"
    "pushed (steps (run (new_RequestQueue config_sequential)
         [Enqueue 10, Enqueue 20, Enqueue 30, Settle 10])) = [20, 30 :: nat]"
    by (simp_all add: enqueue_def settle_def processNext_def executeTask_def
        new_RequestQueue_def config_sequential_def)
  show ?thesis
    using queue_dispatch_is_fifo [where cfg = config_sequential
        and tasks = "[10, 20, 30 :: nat]"] cfg partial
    by blast
qed

lemma enqueue_rejection_keeps_state:
  "fst (enqueue q task) = Inl QueueFullError \<Longrightarrow> snd (enqueue q task) = q"
  by (simp add: enqueue_def split: if_splits)

lemma capacity_scenario_results:
  "enqueue_all (new_RequestQueue config_2_3) [10, 20, 30, 40, 50, 60 :: nat] =
     [Inr Executing, Inr Executing, Inr Deferred, Inr Deferred, Inr Deferred, Inl QueueFullError]"
  by (simp add: enqueue_def executeTask_def new_RequestQueue_def config_2_3_def)

lemma capacity_scenario_state:
  "queue (run (new_RequestQueue config_2_3) (map Enqueue [10, 20, 30, 40, 50 :: nat])) = [30, 40, 50]"
  "activeCount (run (new_RequestQueue config_2_3) (map Enqueue [10, 20, 30, 40, 50 :: nat])) = 2"
  "queue_config (run (new_RequestQueue config_2_3) (map Enqueue [10, 20, 30, 40, 50 :: nat])) = config_2_3"
  by (simp_all add: enqueue_def executeTask_def new_RequestQueue_def config_2_3_def)

text \<open>
  C2. For a non-negative \<open>maxQueueSize\<close> and every state a queue can reach:
  \<open>enqueue\<close> fails with \<open>QueueFullError\<close> exactly when the number of pending tasks
  equals \<open>maxQueueSize\<close>; a failing \<open>enqueue\<close> leaves the state as it was, from any
  state. In particular a queue configured with \<open>maxConcurrent = 2\<close> and
  \<open>maxQueueSize = 3\<close> accepts five consecutive tasks that do not complete, two running
  and three pending, and rejects the sixth.
\<close>

theorem enqueue_rejects_iff_full:
  assumes "0 \<le> maxQueueSize cfg"
  shows "(fst (enqueue (run (new_RequestQueue cfg) history) task) = Inl QueueFullError
            \<longleftrightarrow> int (length (queue (run (new_RequestQueue cfg) history))) = maxQueueSize cfg)
     \<and> (fst (enqueue q task) = Inl QueueFullError \<longrightarrow> snd (enqueue q task) = q)
     \<and> enqueue_all (new_RequestQueue config_2_3) [10, 20, 30, 40, 50, 60 :: nat] =
         [Inr Executing, Inr Executing, Inr Deferred, Inr Deferred, Inr Deferred,
          Inl QueueFullError]
     \<and> getStatus (run (new_RequestQueue config_2_3) (map Enqueue [10, 20, 30, 40, 50 :: nat])) = (3, 2)"
proof -
  let ?q = "run (new_RequestQueue cfg) history"
  have "fifo_inv ?q"
    by (rule fifo_inv_run [OF fifo_inv_new])
  then have bound: "int (length (queue ?q)) \<le> maxQueueSize cfg"
    using assms by (simp add: fifo_inv_def config_run new_RequestQueue_def)
  have "fst (enqueue ?q task) = Inl QueueFullError
          \<longleftrightarrow> int (length (queue ?q)) \<ge> maxQueueSize (queue_config ?q)"
    by (simp add: enqueue_def)
  then have iff: "fst (enqueue ?q task) = Inl QueueFullError
          \<longleftrightarrow> int (length (queue ?q)) = maxQueueSize cfg"
    using bound by (auto simp: config_run new_RequestQueue_def)
  have status: "getStatus (run (new_RequestQueue config_2_3)
      (map Enqueue [10, 20, 30, 40, 50 :: nat])) = (3, 2)"
    unfolding getStatus_def capacity_scenario_state by simp
  show ?thesis
    using iff enqueue_rejection_keeps_state [of q task] capacity_scenario_results status
    by blast
qed

theorem enqueue_rejects_iff_full_witness:
  "0 \<le> maxQueueSize config_2_3
   \<and> int (length (queue (run (new_RequestQueue config_2_3) (map Enqueue [10, 20, 30, 40, 50 :: nat]))))
       = maxQueueSize config_2_3
   \<and> fst (enqueue (run (new_RequestQueue config_2_3) (map Enqueue [10, 20, 30, 40, 50 :: nat])) 60)
       = Inl QueueFullError
   \<and> snd (enqueue (run (new_RequestQueue config_2_3) (map Enqueue [10, 20, 30, 40, 50 :: nat])) 60)
       = run (new_RequestQueue config_2_3) (map Enqueue [10, 20, 30, 40, 50 :: nat])
   \<and> int (length (queue (run (new_RequestQueue config_2_3) (map Enqueue [10, 20 :: nat]))))
       \<noteq> maxQueueSize config_2_3
   \<and> fst (enqueue (run (new_RequestQueue config_2_3) (map Enqueue [10, 20 :: nat])) 30)
       = Inr Deferred"
proof -
  let ?full = "run (new_RequestQueue config_2_3) (map Enqueue [10, 20, 30, 40, 50 :: nat])"
  have size: "0 \<le> maxQueueSize config_2_3"
    by (simp add: config_2_3_def)
  have three: "maxQueueSize config_2_3 = 3"
    by (simp add: config_2_3_def)
  have full: "int (length (queue ?full)) = maxQueueSize config_2_3"
    unfolding capacity_scenario_state three by simp
  have rejected: "fst (enqueue ?full 60) = Inl QueueFullError"
    using enqueue_rejects_iff_full [OF size,
        where history = "map Enqueue [10, 20, 30, 40, 50 :: nat]" and task = "60 :: nat"] full
    by blast
  have unchanged: "snd (enqueue ?full 60) = ?full"
    using enqueue_rejects_iff_full [OF size, where q = ?full and task = "60 :: nat"] rejected
    by blast
  have other: "int (length (queue (run (new_RequestQueue config_2_3) (map Enqueue [10, 20 :: nat]))))
       \<noteq> maxQueueSize config_2_3"
    "fst (enqueue (run (new_RequestQueue config_2_3) (map Enqueue [10, 20 :: nat])) 30) = Inr Deferred"
    by (simp_all add: enqueue_def executeTask_def new_RequestQueue_def config_2_3_def)
  show ?thesis
    using size full rejected unchanged other by blast
qed

section \<open>Properties of the client token parser\<close>

lemma split_examples:
  "split CHR ''.'' ''a.b.c'' = [''a'', ''b'', ''c'']"
  "split CHR ''.'' ''invalid'' = [''invalid'']"
  "split CHR ''.'' '''' = ['''']"
  "split CHR ''.'' ''not.a.valid.jwt.token'' = [''not'', ''a'', ''valid'', ''jwt'', ''token'']"
  by simp_all

lemma parseClientToken_reads_fields:
  "parseClientToken (\<lambda>s. Some s)
     (\<lambda>s. Some (JObj [(''sub'', JStr ''user_1''), (''azp'', JStr ''client_1'')]))
     (Val (JStr ''h.p.s'')) =
   Inr \<lparr>userId = Val (JStr ''user_1''), clientId = Val (JStr ''client_1'')\<rparr>"
  by (simp add: parseClientToken_def parseClientToken_try_def js_or_def Let_def)

text \<open>
  C10. \<open>parseClientToken\<close> never throws: for every input and every behaviour of
  \<open>atob\<close> and \<open>JSON.parse\<close> it returns a payload; and for every malformed input
  (not a string, such as \<open>null\<close> or \<open>undefined\<close>; the empty string; a string that
  does not split into exactly three parts at the dots; a string whose payload part
  is rejected by \<open>atob\<close> or by \<open>JSON.parse\<close>) the payload has the empty string for
  both fields.
\<close>

theorem parseClientToken_total:
  "(\<exists>payload. parseClientToken atob JSON_parse token = Inr payload)
   \<and> (malformed_token atob JSON_parse token \<longrightarrow>
        parseClientToken atob JSON_parse token =
          Inr \<lparr>userId = Val (JStr ''''), clientId = Val (JStr '''')\<rparr>)"
  by (auto simp: parseClientToken_def parseClientToken_try_def malformed_token_def Let_def
      empty_payload_def split: sum.splits jsval.splits json.splits option.splits)

theorem parseClientToken_total_witness:
  "malformed_token atob_rejecting JSON_parse_rejecting (Val JNull)
   \<and> parseClientToken atob_rejecting JSON_parse_rejecting (Val JNull) =
       Inr \<lparr>userId = Val (JStr ''''), clientId = Val (JStr '''')\<rparr>
   \<and> malformed_token atob_rejecting JSON_parse_rejecting Undefined
   \<and> parseClientToken atob_rejecting JSON_parse_rejecting Undefined =
       Inr \<lparr>userId = Val (JStr ''''), clientId = Val (JStr '''')\<rparr>
   \<and> malformed_token atob_rejecting JSON_parse_rejecting (Val (JStr ''''))
   \<and> parseClientToken atob_rejecting JSON_parse_rejecting (Val (JStr '''')) =
       Inr \<lparr>userId = Val (JStr ''''), clientId = Val (JStr '''')\<rparr>
   \<and> malformed_token atob_rejecting JSON_parse_rejecting (Val (JStr ''not.a.valid.jwt.token''))
   \<and> parseClientToken atob_rejecting JSON_parse_rejecting (Val (JStr ''not.a.valid.jwt.token'')) =
       Inr \<lparr>userId = Val (JStr ''''), clientId = Val (JStr '''')\<rparr>
   \<and> malformed_token atob_rejecting JSON_parse_rejecting (Val (JStr ''a.b.c''))
   \<and> parseClientToken atob_rejecting JSON_parse_rejecting (Val (JStr ''a.b.c'')) =
       Inr \<lparr>userId = Val (JStr ''''), clientId = Val (JStr '''')\<rparr>"
  using parseClientToken_total [of atob_rejecting JSON_parse_rejecting "Val JNull"]
    parseClientToken_total [of atob_rejecting JSON_parse_rejecting Undefined]
    parseClientToken_total [of atob_rejecting JSON_parse_rejecting "Val (JStr '''')"]
    parseClientToken_total [of atob_rejecting JSON_parse_rejecting
      "Val (JStr ''not.a.valid.jwt.token'')"]
    parseClientToken_total [of atob_rejecting JSON_parse_rejecting "Val (JStr ''a.b.c'')"]
  by (simp add: malformed_token_def atob_rejecting_def)

end
